theory Spec2Isabelle
  imports Main
begin

section \<open>Data model\<close>

text \<open>
  The tables of \<^verbatim>\<open>app/models\<close> and the request schemas of \<^verbatim>\<open>app/schemas\<close>.
  Python integers are \<open>int\<close>, a \<^verbatim>\<open>datetime\<close> is an \<open>int\<close> (a point on the time
  line; only its order is used), an \<^verbatim>\<open>Optional\<close> column is an \<open>option\<close>.
\<close>

datatype EventStatus = SCHEDULED | ONGOING | COMPLETED | CANCELED

text \<open>\<^verbatim>\<open>EventCreate\<close>: the fields of an event that a request supplies.\<close>

record event_create =
  name :: string
  description :: "string option"
  start_time :: int
  end_time :: int
  location :: string
  max_attendees :: int
  status :: EventStatus

text \<open>\<^verbatim>\<open>Event\<close>: a row of table \<^verbatim>\<open>events\<close>; \<open>event_id\<close> is the primary key.\<close>

record event = event_create +
  event_id :: int

text \<open>\<^verbatim>\<open>AttendeeCsv\<close> (and \<^verbatim>\<open>AttendeeBase\<close>): one candidate of a registration.\<close>

record attendee_csv =
  first_name :: string
  last_name :: string
  email :: string
  phone_number :: "string option"

text \<open>
  \<^verbatim>\<open>Attendee\<close>: a row of table \<^verbatim>\<open>attendees\<close>. The foreign key
  \<^verbatim>\<open>Attendee.event_id\<close> is the field \<open>att_event_id\<close> here, since \<open>event_id\<close> names
  the primary key of \<open>event\<close>. The column \<^verbatim>\<open>email\<close> is declared
  \<^verbatim>\<open>unique=True\<close>: the store refuses two rows with one email, whatever their
  events (see \<open>commit_attendees\<close>).
\<close>

record attendee = attendee_csv +
  attendee_id :: int
  att_event_id :: int
  check_in_status :: bool

text \<open>
  A field of an update schema. \<^verbatim>\<open>dict(exclude_unset=True)\<close> keeps exactly the
  fields the request set, also those it set to \<^verbatim>\<open>null\<close>: \<open>NotGiven\<close> is a field
  the request left out, \<open>Given None\<close> an explicit \<^verbatim>\<open>null\<close>, \<open>Given (Some v)\<close> a
  value.
\<close>

datatype 'a given = NotGiven | Given "'a option"

text \<open>What reading the attribute of the schema object yields: \<^verbatim>\<open>None\<close> when unset.\<close>

fun attr :: "'a given \<Rightarrow> 'a option" where
  "attr NotGiven = None"
| "attr (Given v) = v"

record attendee_update =
  upd_first_name :: "string given"
  upd_last_name :: "string given"
  upd_email :: "string given"
  upd_phone_number :: "string given"
  upd_check_in_status :: "bool given"

record event_update =
  upd_name :: "string given"
  upd_description :: "string given"
  upd_start_time :: "int given"
  upd_end_time :: "int given"
  upd_location :: "string given"
  upd_max_attendees :: "int given"
  upd_status :: "EventStatus given"

text \<open>
  The store: both tables in storage order. A query without \<^verbatim>\<open>ORDER BY\<close> returns
  its rows in that order.
\<close>

record db =
  events :: "event list"
  attendees :: "attendee list"

text \<open>
  The failures of the service layer. \<open>CapacityExceeded limit usage\<close> carries what the
  message names: the bulk paths name the limit and the current count, single creation
  names the limit only. \<open>DuplicateEmail\<close> carries the reported addresses.
  \<open>IntegrityError\<close> is the store refusing a commit (a constraint of the table).
\<close>

datatype error =
    EventNotFound int
  | AttendeeNotFound int
  | CapacityExceeded int "nat option"
  | DuplicateEmail "string list"
  | AlreadyCheckedIn int
  | InvalidCsv
  | MissingColumns "string list"
  | CsvDataError
  | IntegrityError

text \<open>
  A service call returns its value and the committed store, or raises. A call that
  raises commits nothing: the store stays as it was.
\<close>

definition state_after :: "db \<Rightarrow> error + ('a \<times> db) \<Rightarrow> db" where
  "state_after d r = (case r of Inl _ \<Rightarrow> d | Inr (_, d') \<Rightarrow> d')"

text \<open>The constraints the store keeps: both primary keys and the unique email.\<close>

definition db_ok :: "db \<Rightarrow> bool" where
  "db_ok d = (distinct (map event_id (events d))
     \<and> distinct (map attendee_id (attendees d))
     \<and> distinct (map email (attendees d)))"

section \<open>Event and attendee lookup\<close>

definition get_event :: "db \<Rightarrow> int \<Rightarrow> error + event" where
  "get_event d eid =
     (case find (\<lambda>e. event_id e = eid) (events d) of
        None \<Rightarrow> Inl (EventNotFound eid)
      | Some e \<Rightarrow> Inr e)"

definition get_attendee :: "db \<Rightarrow> int \<Rightarrow> error + attendee" where
  "get_attendee d aid =
     (case find (\<lambda>a. attendee_id a = aid) (attendees d) of
        None \<Rightarrow> Inl (AttendeeNotFound aid)
      | Some a \<Rightarrow> Inr a)"

text \<open>\<^verbatim>\<open>select(func.count())\<close> over the attendees of one event.\<close>

definition get_attendee_count :: "db \<Rightarrow> int \<Rightarrow> nat" where
  "get_attendee_count d eid = length (filter (\<lambda>a. att_event_id a = eid) (attendees d))"

section \<open>Writing attendees\<close>

text \<open>The store assigns a new row the next primary key after the largest one in use.\<close>

definition next_id :: "int list \<Rightarrow> int" where
  "next_id ids = 1 + fold max ids 0"

text \<open>The loop building one \<^verbatim>\<open>Attendee\<close> per candidate, not checked in.\<close>

fun new_attendees :: "int \<Rightarrow> int \<Rightarrow> attendee_csv list \<Rightarrow> attendee list" where
  "new_attendees eid i [] = []"
| "new_attendees eid i (c # cs) =
     \<lparr>first_name = first_name c, last_name = last_name c, email = email c,
      phone_number = phone_number c, attendee_id = i, att_event_id = eid,
      check_in_status = False\<rparr> # new_attendees eid (i + 1) cs"

text \<open>
  \<^verbatim>\<open>db.commit()\<close> of added rows: one transaction, refused as a whole when an
  email of a new row is already in the table or occurs twice among the new rows.
\<close>

definition commit_attendees :: "db \<Rightarrow> attendee list \<Rightarrow> error + db" where
  "commit_attendees d rows =
     (if distinct (map email rows)
         \<and> list_all (\<lambda>r. email r \<notin> set (map email (attendees d))) rows
      then Inr (d\<lparr>attendees := attendees d @ rows\<rparr>)
      else Inl IntegrityError)"

text \<open>
  An \<^verbatim>\<open>UPDATE\<close> by primary key: of all columns that \<^verbatim>\<open>update_attendee\<close>
  may set, and of the column \<^verbatim>\<open>check_in_status\<close> alone.
\<close>

definition replace_attendee :: "attendee \<Rightarrow> attendee list \<Rightarrow> attendee list" where
  "replace_attendee a' rows = map (\<lambda>a. if attendee_id a = attendee_id a' then a' else a) rows"

definition set_checked_in :: "int \<Rightarrow> attendee list \<Rightarrow> attendee list" where
  "set_checked_in aid rows =
     map (\<lambda>a. if attendee_id a = aid then a\<lparr>check_in_status := True\<rparr> else a) rows"

section \<open>Single attendee operations\<close>

text \<open>
  \<^verbatim>\<open>create_attendee\<close>; the \<^verbatim>\<open>AttendeeCreate\<close> request is the target event id
  and the candidate's fields.
\<close>

definition create_attendee :: "db \<Rightarrow> int \<Rightarrow> attendee_csv \<Rightarrow> error + (attendee \<times> db)" where
  "create_attendee d eid attendee_data =
     (case get_event d eid of
        Inl err \<Rightarrow> Inl err
      | Inr ev \<Rightarrow>
          let attendee_count = get_attendee_count d (event_id ev) in
          if int attendee_count \<ge> max_attendees ev
          then Inl (CapacityExceeded (max_attendees ev) None)
          else
            (case find (\<lambda>a. email a = email attendee_data \<and> att_event_id a = event_id ev)
                    (attendees d) of
               Some _ \<Rightarrow> Inl (DuplicateEmail [email attendee_data])
             | None \<Rightarrow>
                 let row = hd (new_attendees eid (next_id (map attendee_id (attendees d)))
                                 [attendee_data]) in
                 (case commit_attendees d [row] of
                    Inl err \<Rightarrow> Inl err
                  | Inr d' \<Rightarrow> Inr (row, d'))))"

text \<open>
  The \<^verbatim>\<open>setattr\<close> loop of \<^verbatim>\<open>update_attendee\<close> followed by the commit's
  \<^verbatim>\<open>nullable=False\<close> checks: \<open>None\<close> when a column that may not be null was set
  to \<^verbatim>\<open>null\<close>.
\<close>

fun assign :: "'a given \<Rightarrow> 'a \<Rightarrow> 'a option" where
  "assign NotGiven old = Some old"
| "assign (Given v) old = v"

fun assign_nullable :: "'a given \<Rightarrow> 'a option \<Rightarrow> 'a option" where
  "assign_nullable NotGiven old = old"
| "assign_nullable (Given v) old = v"

definition set_attendee_fields :: "attendee \<Rightarrow> attendee_update \<Rightarrow> attendee option" where
  "set_attendee_fields a u =
     (case assign (upd_first_name u) (first_name a) of None \<Rightarrow> None | Some f \<Rightarrow>
      case assign (upd_last_name u) (last_name a) of None \<Rightarrow> None | Some l \<Rightarrow>
      case assign (upd_email u) (email a) of None \<Rightarrow> None | Some e \<Rightarrow>
      case assign (upd_check_in_status u) (check_in_status a) of None \<Rightarrow> None | Some c \<Rightarrow>
        Some (a\<lparr>first_name := f, last_name := l, email := e,
                phone_number := assign_nullable (upd_phone_number u) (phone_number a),
                check_in_status := c\<rparr>))"

definition update_attendee :: "db \<Rightarrow> int \<Rightarrow> attendee_update \<Rightarrow> error + (attendee \<times> db)" where
  "update_attendee d aid attendee_data =
     (case get_attendee d aid of
        Inl err \<Rightarrow> Inl err
      | Inr a \<Rightarrow>
          let taken =
            (case attr (upd_email attendee_data) of
               None \<Rightarrow> False
             | Some e \<Rightarrow> e \<noteq> [] \<and> e \<noteq> email a
                 \<and> find (\<lambda>b. email b = e \<and> att_event_id b = att_event_id a
                              \<and> attendee_id b \<noteq> aid) (attendees d) \<noteq> None) in
          if taken
          then Inl (DuplicateEmail [the (attr (upd_email attendee_data))])
          else
            (case set_attendee_fields a attendee_data of
               None \<Rightarrow> Inl IntegrityError
             | Some a' \<Rightarrow>
                 if list_ex (\<lambda>b. attendee_id b \<noteq> attendee_id a \<and> email b = email a')
                      (attendees d)
                 then Inl IntegrityError
                 else Inr (a', d\<lparr>attendees := replace_attendee a' (attendees d)\<rparr>)))"

definition delete_attendee :: "db \<Rightarrow> int \<Rightarrow> error + (unit \<times> db)" where
  "delete_attendee d aid =
     (case get_attendee d aid of
        Inl err \<Rightarrow> Inl err
      | Inr a \<Rightarrow>
          Inr ((), d\<lparr>attendees := filter (\<lambda>b. attendee_id b \<noteq> attendee_id a) (attendees d)\<rparr>))"

section \<open>Check-in\<close>

definition check_in_attendee :: "db \<Rightarrow> int \<Rightarrow> error + (attendee \<times> db)" where
  "check_in_attendee d aid =
     (case get_attendee d aid of
        Inl err \<Rightarrow> Inl err
      | Inr a \<Rightarrow>
          if check_in_status a
          then Inl (AlreadyCheckedIn aid)
          else
            Inr (a\<lparr>check_in_status := True\<rparr>,
                 d\<lparr>attendees := set_checked_in (attendee_id a) (attendees d)\<rparr>))"

text \<open>
  The loop of \<^verbatim>\<open>bulk_check_in\<close> over the rows found: a row already checked in
  is appended to \<open>already_checked_in\<close>, any other row is checked in and appended to
  \<open>newly_checked_in\<close>.
\<close>

fun check_in_loop ::
  "attendee list \<Rightarrow> int list \<Rightarrow> int list \<Rightarrow> attendee list
     \<Rightarrow> int list \<times> int list \<times> attendee list" where
  "check_in_loop [] already newly rows = (already, newly, rows)"
| "check_in_loop (a # as) already newly rows =
     (if check_in_status a
      then check_in_loop as (already @ [attendee_id a]) newly rows
      else check_in_loop as already (newly @ [attendee_id a])
             (set_checked_in (attendee_id a) rows))"

text \<open>The dictionary \<^verbatim>\<open>bulk_check_in\<close> returns (\<open>total\<close> and \<open>found\<close> are counts).\<close>

record check_in_result =
  total_count :: nat
  found_count :: nat
  missing :: "int list"
  already_checked_in :: "int list"
  newly_checked_in :: "int list"

definition bulk_check_in :: "db \<Rightarrow> int \<Rightarrow> int list \<Rightarrow> error + (check_in_result \<times> db)" where
  "bulk_check_in d eid attendee_ids =
     (case get_event d eid of
        Inl err \<Rightarrow> Inl err
      | Inr _ \<Rightarrow>
          let found = filter (\<lambda>a. att_event_id a = eid \<and> attendee_id a \<in> set attendee_ids)
                        (attendees d);
              found_ids = map attendee_id found;
              missing_ids = filter (\<lambda>i. i \<notin> set found_ids) attendee_ids
          in (case check_in_loop found [] [] (attendees d) of
                (already, newly, rows) \<Rightarrow>
                  Inr (\<lparr>total_count = length attendee_ids, found_count = length found,
                        missing = missing_ids, already_checked_in = already,
                        newly_checked_in = newly\<rparr>,
                       d\<lparr>attendees := rows\<rparr>)))"

section \<open>Bulk registration\<close>

text \<open>The dictionary both bulk registration paths return.\<close>

record bulk_result =
  total_created :: nat
  attendee_ids :: "int list"

text \<open>
  \<^verbatim>\<open>[email for email in set(emails) if emails.count(email) > 1]\<close>. Python does not
  fix the order in which a set of strings is iterated, so that order is the parameter
  \<open>set_iter\<close>: \<open>set_iter emails\<close> lists the elements of \<^verbatim>\<open>set(emails)\<close>.
\<close>

definition duplicate_emails :: "(string list \<Rightarrow> string list) \<Rightarrow> string list \<Rightarrow> string list" where
  "duplicate_emails set_iter emails =
     filter (\<lambda>e. count_list emails e > 1) (set_iter emails)"

text \<open>The emails of the batch that an attendee of the event already has.\<close>

definition existing_emails :: "db \<Rightarrow> int \<Rightarrow> string list \<Rightarrow> string list" where
  "existing_emails d eid emails =
     map email (filter (\<lambda>a. att_event_id a = eid \<and> email a \<in> set emails) (attendees d))"

text \<open>
  \<^verbatim>\<open>bulk_create_attendees\<close>; the \<^verbatim>\<open>AttendeeBulkCreate\<close> request is the event id
  and the list of candidates.
\<close>

definition bulk_create_attendees ::
  "(string list \<Rightarrow> string list) \<Rightarrow> db \<Rightarrow> int \<Rightarrow> attendee_csv list
     \<Rightarrow> error + (bulk_result \<times> db)" where
  "bulk_create_attendees set_iter d eid attendees_data =
     (case get_event d eid of
        Inl err \<Rightarrow> Inl err
      | Inr ev \<Rightarrow>
          let current_attendee_count = get_attendee_count d eid in
          if int current_attendee_count + int (length attendees_data) > max_attendees ev
          then Inl (CapacityExceeded (max_attendees ev) (Some current_attendee_count))
          else
            let emails = map email attendees_data in
            if duplicate_emails set_iter emails \<noteq> []
            then Inl (DuplicateEmail (take 5 (duplicate_emails set_iter emails)))
            else if existing_emails d eid emails \<noteq> []
            then Inl (DuplicateEmail (take 5 (existing_emails d eid emails)))
            else
              let created = new_attendees eid (next_id (map attendee_id (attendees d)))
                              attendees_data in
              (case commit_attendees d created of
                 Inl err \<Rightarrow> Inl err
               | Inr d' \<Rightarrow>
                   Inr (\<lparr>total_created = length created,
                         attendee_ids = map attendee_id created\<rparr>, d')))"

text \<open>
  An uploaded file as the tabular parser and the \<^verbatim>\<open>AttendeeCsv\<close> schema see it:
  content that does not parse, or a frame with its column names and its rows, where
  \<open>None\<close> is a row the schema rejects.
\<close>

datatype csv_file = Unparsable | Frame "string list" "attendee_csv option list"

definition required_columns :: "string list" where
  "required_columns = [''first_name'', ''last_name'', ''email'']"

definition process_csv_upload ::
  "(string list \<Rightarrow> string list) \<Rightarrow> db \<Rightarrow> int \<Rightarrow> csv_file
     \<Rightarrow> error + (bulk_result \<times> db)" where
  "process_csv_upload set_iter d eid file =
     (case get_event d eid of
        Inl err \<Rightarrow> Inl err
      | Inr ev \<Rightarrow>
          let current_attendee_count = get_attendee_count d eid in
          (case file of
             Unparsable \<Rightarrow> Inl InvalidCsv
           | Frame cols frame_rows \<Rightarrow>
               let missing_columns = filter (\<lambda>c. c \<notin> set cols) required_columns in
               if missing_columns \<noteq> [] then Inl (MissingColumns missing_columns)
               else
                 (case those frame_rows of
                    None \<Rightarrow> Inl CsvDataError
                  | Some attendees_data \<Rightarrow>
                      if int current_attendee_count + int (length attendees_data)
                           > max_attendees ev
                      then Inl (CapacityExceeded (max_attendees ev)
                                  (Some current_attendee_count))
                      else
                        let emails = map email attendees_data in
                        if duplicate_emails set_iter emails \<noteq> []
                        then Inl (DuplicateEmail (take 5 (duplicate_emails set_iter emails)))
                        else if existing_emails d eid emails \<noteq> []
                        then Inl (DuplicateEmail (take 5 (existing_emails d eid emails)))
                        else
                          let created =
                                new_attendees eid (next_id (map attendee_id (attendees d)))
                                  attendees_data in
                          (case commit_attendees d created of
                             Inl err \<Rightarrow> Inl err
                           | Inr d' \<Rightarrow>
                               Inr (\<lparr>total_created = length created,
                                     attendee_ids = map attendee_id created\<rparr>, d')))))"

section \<open>Events\<close>

definition create_event :: "db \<Rightarrow> event_create \<Rightarrow> error + (event \<times> db)" where
  "create_event d event_data =
     (let ev = \<lparr>name = name event_data, description = description event_data,
                start_time = start_time event_data, end_time = end_time event_data,
                location = location event_data, max_attendees = max_attendees event_data,
                status = status event_data,
                event_id = next_id (map event_id (events d))\<rparr>
      in Inr (ev, d\<lparr>events := events d @ [ev]\<rparr>))"

text \<open>
  The \<^verbatim>\<open>setattr\<close> loop of \<^verbatim>\<open>update_event\<close> and the commit's
  \<^verbatim>\<open>nullable=False\<close> checks; only \<^verbatim>\<open>description\<close> may be null.
\<close>

definition set_event_fields :: "event \<Rightarrow> event_update \<Rightarrow> event option" where
  "set_event_fields e u =
     (case assign (upd_name u) (name e) of None \<Rightarrow> None | Some n \<Rightarrow>
      case assign (upd_start_time u) (start_time e) of None \<Rightarrow> None | Some st \<Rightarrow>
      case assign (upd_end_time u) (end_time e) of None \<Rightarrow> None | Some en \<Rightarrow>
      case assign (upd_location u) (location e) of None \<Rightarrow> None | Some l \<Rightarrow>
      case assign (upd_max_attendees u) (max_attendees e) of None \<Rightarrow> None | Some m \<Rightarrow>
      case assign (upd_status u) (status e) of None \<Rightarrow> None | Some s \<Rightarrow>
        Some (e\<lparr>name := n,
                description := assign_nullable (upd_description u) (description e),
                start_time := st, end_time := en, location := l, max_attendees := m,
                status := s\<rparr>))"

definition replace_event :: "event \<Rightarrow> event list \<Rightarrow> event list" where
  "replace_event e' rows = map (\<lambda>e. if event_id e = event_id e' then e' else e) rows"

definition set_status :: "int \<Rightarrow> EventStatus \<Rightarrow> event list \<Rightarrow> event list" where
  "set_status eid s rows = map (\<lambda>e. if event_id e = eid then e\<lparr>status := s\<rparr> else e) rows"

definition update_event :: "db \<Rightarrow> int \<Rightarrow> event_update \<Rightarrow> error + (event \<times> db)" where
  "update_event d eid event_data =
     (case get_event d eid of
        Inl err \<Rightarrow> Inl err
      | Inr e \<Rightarrow>
          (case set_event_fields e event_data of
             None \<Rightarrow> Inl IntegrityError
           | Some e' \<Rightarrow> Inr (e', d\<lparr>events := replace_event e' (events d)\<rparr>)))"

text \<open>Deleting an event deletes its attendees too (\<^verbatim>\<open>cascade="all, delete-orphan"\<close>).\<close>

definition delete_event :: "db \<Rightarrow> int \<Rightarrow> error + (unit \<times> db)" where
  "delete_event d eid =
     (case get_event d eid of
        Inl err \<Rightarrow> Inl err
      | Inr e \<Rightarrow>
          Inr ((), \<lparr>events = filter (\<lambda>x. event_id x \<noteq> event_id e) (events d),
                    attendees = filter (\<lambda>a. att_event_id a \<noteq> event_id e) (attendees d)\<rparr>))"

text \<open>
  An update request that sets no column to \<^verbatim>\<open>null\<close> that may not be null, and the
  request that gives \<^verbatim>\<open>max_attendees\<close> alone.
\<close>

definition no_null :: "event_update \<Rightarrow> bool" where
  "no_null u = (upd_name u \<noteq> Given None \<and> upd_start_time u \<noteq> Given None
     \<and> upd_end_time u \<noteq> Given None \<and> upd_location u \<noteq> Given None
     \<and> upd_max_attendees u \<noteq> Given None \<and> upd_status u \<noteq> Given None)"

definition only_max_attendees :: "int \<Rightarrow> event_update" where
  "only_max_attendees m = \<lparr>upd_name = NotGiven, upd_description = NotGiven,
     upd_start_time = NotGiven, upd_end_time = NotGiven, upd_location = NotGiven,
     upd_max_attendees = Given (Some m), upd_status = NotGiven\<rparr>"

text \<open>
  A request that sets the required column \<^verbatim>\<open>name\<close> to \<^verbatim>\<open>null\<close> and gives a new
  \<^verbatim>\<open>location\<close>; the schema \<^verbatim>\<open>EventUpdate\<close> accepts it, every field being optional.
\<close>

definition null_name_new_location :: event_update where
  "null_name_new_location = \<lparr>upd_name = Given None, upd_description = NotGiven,
     upd_start_time = NotGiven, upd_end_time = NotGiven,
     upd_location = Given (Some ''Annex''), upd_max_attendees = NotGiven,
     upd_status = NotGiven\<rparr>"

section \<open>The status sweep\<close>

text \<open>
  The loops \<^verbatim>\<open>for event in ...: event.status = ...\<close>: one \<^verbatim>\<open>UPDATE\<close> of the
  column \<^verbatim>\<open>status\<close> per row found, by primary key.
\<close>

fun set_statuses :: "event list \<Rightarrow> EventStatus \<Rightarrow> event list \<Rightarrow> event list" where
  "set_statuses [] s rows = rows"
| "set_statuses (e # es) s rows = set_statuses es s (set_status (event_id e) s rows)"

record sweep_counts =
  ongoing :: nat
  completed :: nat

text \<open>\<^verbatim>\<open>update_event_statuses\<close>, with the clock reading \<open>now\<close> as an argument.\<close>

definition update_event_statuses :: "db \<Rightarrow> int \<Rightarrow> sweep_counts \<times> db" where
  "update_event_statuses d now =
     (let ongoing_events =
            filter (\<lambda>e. status e = SCHEDULED \<and> start_time e \<le> now \<and> end_time e > now)
              (events d);
          completed_events =
            filter (\<lambda>e. status e \<in> {SCHEDULED, ONGOING} \<and> end_time e \<le> now) (events d);
          rows = set_statuses completed_events COMPLETED
                   (set_statuses ongoing_events ONGOING (events d))
      in (\<lparr>ongoing = length ongoing_events, completed = length completed_events\<rparr>,
          d\<lparr>events := rows\<rparr>))"

text \<open>
  What one sweep at time \<open>now\<close> is to do with one event, stated from the rules:
  scheduled and running becomes ongoing; scheduled or ongoing and over becomes
  completed.
\<close>

definition swept :: "int \<Rightarrow> event \<Rightarrow> event" where
  "swept now e =
     (if status e = SCHEDULED \<and> start_time e \<le> now \<and> now < end_time e
      then e\<lparr>status := ONGOING\<rparr>
      else if (status e = SCHEDULED \<or> status e = ONGOING) \<and> end_time e \<le> now
      then e\<lparr>status := COMPLETED\<rparr>
      else e)"

section \<open>The operations of the service\<close>

text \<open>
  Every request that writes to the tables of events and attendees. Listing events runs
  the status sweep first; the other reads and the user operations leave both tables
  alone.
\<close>

datatype request =
    CreateEvent event_create
  | UpdateEvent int event_update
  | DeleteEvent int
  | ListEvents int
  | CreateAttendee int attendee_csv
  | UpdateAttendee int attendee_update
  | DeleteAttendee int
  | CheckInAttendee int
  | BulkCheckIn int "int list"
  | BulkCreateAttendees int "attendee_csv list"
  | UploadCsv int csv_file

fun handle :: "(string list \<Rightarrow> string list) \<Rightarrow> db \<Rightarrow> request \<Rightarrow> db" where
  "handle it d (CreateEvent c) = state_after d (create_event d c)"
| "handle it d (UpdateEvent eid u) = state_after d (update_event d eid u)"
| "handle it d (DeleteEvent eid) = state_after d (delete_event d eid)"
| "handle it d (ListEvents now) = snd (update_event_statuses d now)"
| "handle it d (CreateAttendee eid c) = state_after d (create_attendee d eid c)"
| "handle it d (UpdateAttendee aid u) = state_after d (update_attendee d aid u)"
| "handle it d (DeleteAttendee aid) = state_after d (delete_attendee d aid)"
| "handle it d (CheckInAttendee aid) = state_after d (check_in_attendee d aid)"
| "handle it d (BulkCheckIn eid ids) = state_after d (bulk_check_in d eid ids)"
| "handle it d (BulkCreateAttendees eid cs) = state_after d (bulk_create_attendees it d eid cs)"
| "handle it d (UploadCsv eid f) = state_after d (process_csv_upload it d eid f)"

text \<open>
  The one kind of request that resets a check-in: an attendee update whose
  \<^verbatim>\<open>check_in_status\<close> is explicitly \<^verbatim>\<open>false\<close>.
\<close>

fun unchecks :: "request \<Rightarrow> bool" where
  "unchecks (UpdateAttendee aid u) = (upd_check_in_status u = Given (Some False))"
| "unchecks _ = False"

text \<open>Two update requests: one only resets the check-in, one only renames.\<close>

definition uncheck_only :: attendee_update where
  "uncheck_only = \<lparr>upd_first_name = NotGiven, upd_last_name = NotGiven, upd_email = NotGiven,
     upd_phone_number = NotGiven, upd_check_in_status = Given (Some False)\<rparr>"

definition rename_only :: attendee_update where
  "rename_only = \<lparr>upd_first_name = NotGiven, upd_last_name = Given (Some ''Roe''),
     upd_email = NotGiven, upd_phone_number = NotGiven, upd_check_in_status = NotGiven\<rparr>"

text \<open>
  No check-in is lost between two states of the attendee table: every attendee that is
  checked in in \<open>rows\<close> is checked in in \<open>rows'\<close>, if it is still there.
\<close>

definition kept :: "attendee list \<Rightarrow> attendee list \<Rightarrow> bool" where
  "kept rows rows' =
     (\<forall>a\<in>set rows. check_in_status a \<longrightarrow>
        (\<forall>a'\<in>set rows'. attendee_id a' = attendee_id a \<longrightarrow> check_in_status a'))"

section \<open>Example stores\<close>

text \<open>Small concrete values on which the theorems below are run.\<close>

definition ev1 :: event where
  "ev1 = \<lparr>name = ''Launch'', description = None, start_time = 10, end_time = 20,
          location = ''Hall'', max_attendees = 2, status = SCHEDULED, event_id = 1\<rparr>"

definition ev2 :: event where
  "ev2 = \<lparr>name = ''Meetup'', description = None, start_time = 30, end_time = 40,
          location = ''Room'', max_attendees = 5, status = SCHEDULED, event_id = 2\<rparr>"

definition cand_a :: attendee_csv where
  "cand_a = \<lparr>first_name = ''Ann'', last_name = ''Lee'', email = ''a@x.io'',
             phone_number = None\<rparr>"

definition cand_b :: attendee_csv where
  "cand_b = \<lparr>first_name = ''Bob'', last_name = ''Ray'', email = ''b@x.io'',
             phone_number = None\<rparr>"

definition cand_c :: attendee_csv where
  "cand_c = \<lparr>first_name = ''Cy'', last_name = ''Orr'', email = ''c@x.io'',
             phone_number = None\<rparr>"

definition att1 :: attendee where
  "att1 = \<lparr>first_name = ''Ann'', last_name = ''Lee'', email = ''a@x.io'',
           phone_number = None, attendee_id = 1, att_event_id = 1,
           check_in_status = False\<rparr>"

definition att2 :: attendee where
  "att2 = \<lparr>first_name = ''Bob'', last_name = ''Ray'', email = ''b@x.io'',
           phone_number = None, attendee_id = 2, att_event_id = 1,
           check_in_status = True\<rparr>"

text \<open>Two events; the first has one attendee, not checked in.\<close>

definition store1 :: db where
  "store1 = \<lparr>events = [ev1, ev2], attendees = [att1]\<rparr>"

text \<open>Two events; the first is full: one attendee not checked in, one checked in.\<close>

definition store2 :: db where
  "store2 = \<lparr>events = [ev1, ev2], attendees = [att1, att2]\<rparr>"

definition ev3 :: event where
  "ev3 = \<lparr>name = ''Talk'', description = None, start_time = 1, end_time = 5,
          location = ''Hall'', max_attendees = 9, status = ONGOING, event_id = 3\<rparr>"

definition ev4 :: event where
  "ev4 = \<lparr>name = ''Gala'', description = None, start_time = 1, end_time = 5,
          location = ''Hall'', max_attendees = 9, status = CANCELED, event_id = 4\<rparr>"

text \<open>Four events and no attendee: at time 15 the first is running, the third is over.\<close>

definition store3 :: db where
  "store3 = \<lparr>events = [ev1, ev2, ev3, ev4], attendees = []\<rparr>"

lemmas example_defs =
  ev1_def ev2_def cand_a_def cand_b_def cand_c_def att1_def att2_def store1_def store2_def
  ev3_def ev4_def store3_def

section \<open>Check-in twice\<close>

lemma find_set_checked_in:
  "find (\<lambda>a. attendee_id a = aid) rows = Some a \<Longrightarrow>
   find (\<lambda>a. attendee_id a = aid) (set_checked_in aid rows)
     = Some (a\<lparr>check_in_status := True\<rparr>)"
  by (induction rows) (auto simp: set_checked_in_def split: if_splits)

lemma get_attendee_id: "get_attendee d aid = Inr a \<Longrightarrow> attendee_id a = aid"
  by (auto simp: get_attendee_def find_Some_iff split: option.splits)

lemma get_event_id: "get_event d eid = Inr e \<Longrightarrow> event_id e = eid"
  by (auto simp: get_event_def find_Some_iff split: option.splits)

text \<open>
  C5. For an attendee that is stored and not checked in, the first check-in succeeds,
  returns and stores the attendee with only \<open>check_in_status\<close> changed to true, and a
  second check-in on the resulting store fails with \<open>AlreadyCheckedIn\<close> and leaves that
  store as it is.
\<close>

theorem check_in_twice:
  assumes "get_attendee d aid = Inr a" and "\<not> check_in_status a"
  shows "\<exists>d1. check_in_attendee d aid = Inr (a\<lparr>check_in_status := True\<rparr>, d1)
           \<and> get_attendee d1 aid = Inr (a\<lparr>check_in_status := True\<rparr>)
           \<and> check_in_attendee d1 aid = Inl (AlreadyCheckedIn aid)
           \<and> state_after d1 (check_in_attendee d1 aid) = d1"
proof -
  let ?a' = "a\<lparr>check_in_status := True\<rparr>"
  let ?d1 = "d\<lparr>attendees := set_checked_in aid (attendees d)\<rparr>"
  from assms(1) have f: "find (\<lambda>a. attendee_id a = aid) (attendees d) = Some a"
    by (auto simp: get_attendee_def split: option.splits)
  have id: "attendee_id a = aid"
    by (rule get_attendee_id[OF assms(1)])
  have first: "check_in_attendee d aid = Inr (?a', ?d1)"
    using assms id by (simp add: check_in_attendee_def)
  have stored: "get_attendee ?d1 aid = Inr ?a'"
    using find_set_checked_in[OF f] by (simp add: get_attendee_def)
  then have second: "check_in_attendee ?d1 aid = Inl (AlreadyCheckedIn aid)"
    by (simp add: check_in_attendee_def)
  then have "state_after ?d1 (check_in_attendee ?d1 aid) = ?d1"
    by (simp add: state_after_def)
  with first stored second show ?thesis by blast
qed

theorem check_in_twice_witness:
  "get_attendee store1 1 = Inr att1 \<and> \<not> check_in_status att1
   \<and> (\<exists>d1. check_in_attendee store1 1 = Inr (att1\<lparr>check_in_status := True\<rparr>, d1)
           \<and> get_attendee d1 1 = Inr (att1\<lparr>check_in_status := True\<rparr>)
           \<and> check_in_attendee d1 1 = Inl (AlreadyCheckedIn 1)
           \<and> state_after d1 (check_in_attendee d1 1) = d1)"
proof -
  have h1: "get_attendee store1 1 = Inr att1"
    by (simp add: get_attendee_def example_defs)
  have h2: "\<not> check_in_status att1"
    by (simp add: att1_def)
  from check_in_twice[OF h1 h2] h1 h2 show ?thesis by simp
qed

section \<open>Capacity\<close>

lemma those_map_Some: "those (map Some xs) = Some xs"
  by (induction xs) auto

lemma required_columns_present:
  "set required_columns \<subseteq> set cols \<Longrightarrow> filter (\<lambda>c. c \<notin> set cols) required_columns = []"
  by (auto simp: filter_empty_conv)

lemma process_csv_upload_parsed:
  "set required_columns \<subseteq> set cols \<Longrightarrow>
   process_csv_upload it d eid (Frame cols (map Some cs)) = bulk_create_attendees it d eid cs"
  by (simp add: process_csv_upload_def bulk_create_attendees_def those_map_Some
      required_columns_present split: sum.splits)

text \<open>
  C1. For an event that exists: a batch of \<open>N\<close> candidates (a JSON batch, or a CSV upload
  that parsed into these candidates) with \<open>current_count + N > max_attendees\<close> fails
  with \<open>CapacityExceeded\<close> naming the limit and the current count, and the store is left
  as it was; single creation fails in the same way when
  \<open>current_count + 1 > max_attendees\<close> (its message names the limit only).
\<close>

theorem capacity_exceeded:
  assumes "get_event d eid = Inr ev"
  shows "(int (get_attendee_count d eid) + int (length B) > max_attendees ev \<longrightarrow>
            bulk_create_attendees it d eid B
              = Inl (CapacityExceeded (max_attendees ev) (Some (get_attendee_count d eid)))
            \<and> state_after d (bulk_create_attendees it d eid B) = d
            \<and> (set required_columns \<subseteq> set cols \<longrightarrow>
                 process_csv_upload it d eid (Frame cols (map Some B))
                   = Inl (CapacityExceeded (max_attendees ev) (Some (get_attendee_count d eid)))
                 \<and> state_after d (process_csv_upload it d eid (Frame cols (map Some B))) = d))
       \<and> (int (get_attendee_count d eid) + 1 > max_attendees ev \<longrightarrow>
            create_attendee d eid c = Inl (CapacityExceeded (max_attendees ev) None)
            \<and> state_after d (create_attendee d eid c) = d)"
proof -
  have id: "event_id ev = eid" by (rule get_event_id[OF assms])
  have bulk: "bulk_create_attendees it d eid B
      = Inl (CapacityExceeded (max_attendees ev) (Some (get_attendee_count d eid)))"
    if "int (get_attendee_count d eid) + int (length B) > max_attendees ev"
    using that assms by (simp add: bulk_create_attendees_def)
  have single: "create_attendee d eid c = Inl (CapacityExceeded (max_attendees ev) None)"
    if "int (get_attendee_count d eid) + 1 > max_attendees ev"
    using that assms id by (simp add: create_attendee_def)
  show ?thesis
    using bulk single by (simp add: process_csv_upload_parsed state_after_def)
qed

theorem capacity_exceeded_witness:
  "get_event store2 1 = Inr ev1
   \<and> int (get_attendee_count store2 1) + int (length [cand_c]) > max_attendees ev1
   \<and> bulk_create_attendees remdups store2 1 [cand_c] = Inl (CapacityExceeded 2 (Some 2))
   \<and> state_after store2 (bulk_create_attendees remdups store2 1 [cand_c]) = store2
   \<and> process_csv_upload remdups store2 1 (Frame required_columns [Some cand_c])
       = Inl (CapacityExceeded 2 (Some 2))
   \<and> create_attendee store2 1 cand_c = Inl (CapacityExceeded 2 None)
   \<and> state_after store2 (create_attendee store2 1 cand_c) = store2"
proof -
  have h: "get_event store2 1 = Inr ev1"
    by (simp add: get_event_def example_defs)
  have n: "get_attendee_count store2 1 = 2"
    by (simp add: get_attendee_count_def example_defs)
  have m: "max_attendees ev1 = 2"
    by (simp add: ev1_def)
  from capacity_exceeded[OF h, of "[cand_c]" remdups required_columns cand_c] h n m
  show ?thesis by (simp add: state_after_def)
qed

section \<open>Duplicate emails\<close>

lemma count_list_gt_1: "\<not> distinct xs \<Longrightarrow> \<exists>x\<in>set xs. count_list xs x > 1"
proof (induction xs)
  case Nil
  then show ?case by simp
next
  case (Cons a xs)
  show ?case
  proof (cases "a \<in> set xs")
    case True
    then have "count_list xs a > 0" using count_list_0_iff[of xs a] by auto
    then have "count_list (a # xs) a > 1" by simp
    moreover have "a \<in> set (a # xs)" by simp
    ultimately show ?thesis by blast
  next
    case False
    with Cons obtain x where x: "x \<in> set xs" "count_list xs x > 1" by auto
    then have "count_list (a # xs) x > 1" by simp
    moreover have "x \<in> set (a # xs)" using x by simp
    ultimately show ?thesis by blast
  qed
qed

lemma duplicate_emails_nonempty:
  assumes "set (it emails) = set emails" and "\<not> distinct emails"
  shows "duplicate_emails it emails \<noteq> []"
proof -
  from count_list_gt_1[OF assms(2)] obtain x where "x \<in> set emails" "count_list emails x > 1"
    by blast
  with assms(1) have "x \<in> set (duplicate_emails it emails)"
    by (simp add: duplicate_emails_def)
  then show ?thesis by auto
qed

lemma duplicate_emails_sound:
  "e \<in> set (duplicate_emails it emails) \<Longrightarrow> count_list emails e > 1"
  by (simp add: duplicate_emails_def)

lemma existing_emails_iff:
  "e \<in> set (existing_emails d eid emails) \<longleftrightarrow>
   e \<in> set emails \<and> (\<exists>a\<in>set (attendees d). att_event_id a = eid \<and> email a = e)"
  by (auto simp: existing_emails_def)

text \<open>
  C2, amended. For an event that exists and a batch that fits the remaining capacity: if
  an email occurs more than once in the batch, or an attendee of the same event already
  has an email of the batch, then both bulk paths fail with \<open>DuplicateEmail\<close>, reporting
  between one and five addresses, each of them an offending address of the batch, and
  the store is left as it was. (\<open>set_iter\<close> lists the elements of the set of emails.)
\<close>

theorem duplicate_email_rejected:
  assumes ev: "get_event d eid = Inr ev"
    and cap: "int (get_attendee_count d eid) + int (length B) \<le> max_attendees ev"
    and it: "set (it (map email B)) = set (map email B)"
    and dup: "\<not> distinct (map email B)
              \<or> (\<exists>a\<in>set (attendees d). att_event_id a = eid \<and> email a \<in> set (map email B))"
  shows "\<exists>reported.
           bulk_create_attendees it d eid B = Inl (DuplicateEmail reported)
         \<and> reported \<noteq> [] \<and> length reported \<le> 5
         \<and> (\<forall>e\<in>set reported. e \<in> set (map email B)
               \<and> (count_list (map email B) e > 1
                    \<or> (\<exists>a\<in>set (attendees d). att_event_id a = eid \<and> email a = e)))
         \<and> state_after d (bulk_create_attendees it d eid B) = d
         \<and> (set required_columns \<subseteq> set cols \<longrightarrow>
               process_csv_upload it d eid (Frame cols (map Some B))
                 = Inl (DuplicateEmail reported)
               \<and> state_after d (process_csv_upload it d eid (Frame cols (map Some B))) = d)"
proof (cases "duplicate_emails it (map email B) = []")
  case False
  let ?r = "take 5 (duplicate_emails it (map email B))"
  have res: "bulk_create_attendees it d eid B = Inl (DuplicateEmail ?r)"
    using ev cap False by (simp add: bulk_create_attendees_def)
  have ne: "?r \<noteq> []" using False by simp
  have sound: "\<forall>e\<in>set ?r. e \<in> set (map email B) \<and> count_list (map email B) e > 1"
  proof
    fix e assume "e \<in> set ?r"
    then have "e \<in> set (duplicate_emails it (map email B))" by (rule in_set_takeD)
    then have c: "count_list (map email B) e > 1" by (rule duplicate_emails_sound)
    then have "e \<in> set (map email B)" using count_list_0_iff[of "map email B" e] by auto
    with c show "e \<in> set (map email B) \<and> count_list (map email B) e > 1" by simp
  qed
  show ?thesis
    apply (rule exI[of _ ?r])
    using res ne sound by (simp add: process_csv_upload_parsed state_after_def)
next
  case True
  then have "distinct (map email B)"
    using duplicate_emails_nonempty[of it "map email B"] it by blast
  with dup obtain a where a: "a \<in> set (attendees d)" "att_event_id a = eid"
      "email a \<in> set (map email B)" by blast
  then have "email a \<in> set (existing_emails d eid (map email B))"
    by (auto simp: existing_emails_iff)
  then have ex: "existing_emails d eid (map email B) \<noteq> []" by auto
  let ?r = "take 5 (existing_emails d eid (map email B))"
  have res: "bulk_create_attendees it d eid B = Inl (DuplicateEmail ?r)"
    using ev cap True ex by (simp add: bulk_create_attendees_def)
  have ne: "?r \<noteq> []" using ex by simp
  have sound: "\<forall>e\<in>set ?r. e \<in> set (map email B)
      \<and> (\<exists>a\<in>set (attendees d). att_event_id a = eid \<and> email a = e)"
  proof
    fix e assume "e \<in> set ?r"
    then have "e \<in> set (existing_emails d eid (map email B))" by (rule in_set_takeD)
    then show "e \<in> set (map email B)
      \<and> (\<exists>a\<in>set (attendees d). att_event_id a = eid \<and> email a = e)"
      by (simp only: existing_emails_iff)
  qed
  show ?thesis
    apply (rule exI[of _ ?r])
    using res ne sound by (simp add: process_csv_upload_parsed state_after_def)
qed

theorem duplicate_email_rejected_witness:
  "bulk_create_attendees remdups store1 1 [cand_a] = Inl (DuplicateEmail [''a@x.io''])
   \<and> state_after store1 (bulk_create_attendees remdups store1 1 [cand_a]) = store1
   \<and> process_csv_upload remdups store1 1 (Frame required_columns [Some cand_a])
       = Inl (DuplicateEmail [''a@x.io''])"
proof -
  have ev: "get_event store1 1 = Inr ev1"
    by (simp add: get_event_def example_defs)
  have cap: "int (get_attendee_count store1 1) + int (length [cand_a]) \<le> max_attendees ev1"
    by (simp add: get_attendee_count_def example_defs)
  have it: "set (remdups (map email [cand_a])) = set (map email [cand_a])"
    by simp
  have dup: "\<not> distinct (map email [cand_a])
      \<or> (\<exists>a\<in>set (attendees store1). att_event_id a = 1 \<and> email a \<in> set (map email [cand_a]))"
    by (simp add: example_defs)
  from duplicate_email_rejected[where d = store1 and eid = 1 and ev = ev1 and B = "[cand_a]"
      and it = remdups and cols = required_columns] ev cap it dup
  obtain reported where r: "bulk_create_attendees remdups store1 1 [cand_a] = Inl (DuplicateEmail reported)"
     "reported \<noteq> []" "length reported \<le> 5"
     "\<forall>e\<in>set reported. e \<in> set (map email [cand_a])"
     "state_after store1 (bulk_create_attendees remdups store1 1 [cand_a]) = store1"
     "process_csv_upload remdups store1 1 (Frame required_columns (map Some [cand_a]))
                 = Inl (DuplicateEmail reported)"
    by auto
  have "bulk_create_attendees remdups store1 1 [cand_a] = Inl (DuplicateEmail [''a@x.io''])"
    by (simp add: bulk_create_attendees_def get_event_def get_attendee_count_def
        duplicate_emails_def existing_emails_def example_defs)
  with r show ?thesis by simp
qed

text \<open>
  C2 as stated fails: a batch with a repeated email that also exceeds the capacity is
  rejected by the capacity rule, which comes first, with \<open>CapacityExceeded\<close>.
\<close>

theorem duplicate_email_counterexample:
  "get_event store2 1 = Inr ev1
   \<and> count_list (map email [cand_c, cand_c]) ''c@x.io'' = 2
   \<and> bulk_create_attendees remdups store2 1 [cand_c, cand_c]
       = Inl (CapacityExceeded 2 (Some 2))
   \<and> process_csv_upload remdups store2 1 (Frame required_columns [Some cand_c, Some cand_c])
       = Inl (CapacityExceeded 2 (Some 2))"
  by (simp add: bulk_create_attendees_def process_csv_upload_def get_event_def
      get_attendee_count_def required_columns_def example_defs)

section \<open>Emails across events\<close>

text \<open>
  C3. A batch that passes the three validation rules is not always persisted: the
  candidate \<open>a@x.io\<close> for event 2, while an attendee of event 1 has that email, fits the
  capacity, is no duplicate in the batch and none in event 2, and the commit is refused
  by the unique email column; nothing is stored.
\<close>

theorem bulk_create_integrity_error:
  "get_event store1 2 = Inr ev2
   \<and> int (get_attendee_count store1 2) + int (length [cand_a]) \<le> max_attendees ev2
   \<and> duplicate_emails remdups (map email [cand_a]) = []
   \<and> existing_emails store1 2 (map email [cand_a]) = []
   \<and> bulk_create_attendees remdups store1 2 [cand_a] = Inl IntegrityError
   \<and> process_csv_upload remdups store1 2 (Frame required_columns [Some cand_a])
       = Inl IntegrityError
   \<and> state_after store1 (bulk_create_attendees remdups store1 2 [cand_a]) = store1"
  by (simp add: bulk_create_attendees_def process_csv_upload_def get_event_def
      get_attendee_count_def duplicate_emails_def existing_emails_def commit_attendees_def
      next_id_def required_columns_def state_after_def example_defs)

text \<open>
  C4. An email registered for event 1 cannot register for event 2: single creation
  passes the capacity check and the check for the email in event 2, and the commit is
  refused by the unique email column.
\<close>

theorem create_attendee_other_event_integrity_error:
  "get_event store1 2 = Inr ev2
   \<and> int (get_attendee_count store1 2) < max_attendees ev2
   \<and> find (\<lambda>a. email a = email cand_a \<and> att_event_id a = 2) (attendees store1) = None
   \<and> create_attendee store1 2 cand_a = Inl IntegrityError"
  by (simp add: create_attendee_def get_event_def get_attendee_count_def commit_attendees_def
      next_id_def example_defs)

section \<open>The status sweep: what it changes\<close>

lemma set_statuses_map:
  "set_statuses es s rows =
   map (\<lambda>r. if event_id r \<in> event_id ` set es then r\<lparr>status := s\<rparr> else r) rows"
proof (induction es arbitrary: rows)
  case Nil
  then show ?case by simp
next
  case (Cons e es)
  show ?case
    by (auto simp: Cons.IH set_status_def)
qed

lemma id_in_filter_iff:
  assumes "distinct (map event_id rows)" and "r \<in> set rows"
  shows "event_id r \<in> event_id ` set (filter P rows) \<longleftrightarrow> P r"
proof
  assume "event_id r \<in> event_id ` set (filter P rows)"
  then obtain r' where r': "r' \<in> set rows" "P r'" "event_id r = event_id r'" by auto
  from assms(1) have "inj_on event_id (set rows)" by (simp add: distinct_map)
  with r' assms(2) have "r = r'" by (auto dest: inj_onD)
  with r' show "P r" by simp
next
  assume "P r"
  with assms(2) show "event_id r \<in> event_id ` set (filter P rows)" by auto
qed

lemma update_event_statuses_eq:
  assumes "distinct (map event_id (events d))"
  shows "update_event_statuses d now =
    (\<lparr>ongoing = length (filter (\<lambda>e. status e = SCHEDULED \<and> start_time e \<le> now \<and> now < end_time e)
                  (events d)),
      completed = length (filter (\<lambda>e. (status e = SCHEDULED \<or> status e = ONGOING) \<and> end_time e \<le> now)
                    (events d))\<rparr>,
     d\<lparr>events := map (swept now) (events d)\<rparr>)"
proof -
  let ?P = "\<lambda>e. status e = SCHEDULED \<and> start_time e \<le> now \<and> end_time e > now"
  let ?Q = "\<lambda>e. status e \<in> {SCHEDULED, ONGOING} \<and> end_time e \<le> now"
  define Pids where "Pids = event_id ` set (filter ?P (events d))"
  define Qids where "Qids = event_id ` set (filter ?Q (events d))"
  have row: "(\<lambda>r. if event_id r \<in> Qids then r\<lparr>status := COMPLETED\<rparr> else r)
               ((\<lambda>r. if event_id r \<in> Pids then r\<lparr>status := ONGOING\<rparr> else r) r)
             = swept now r"
    if "r \<in> set (events d)" for r
  proof -
    have p: "event_id r \<in> Pids \<longleftrightarrow> ?P r"
      unfolding Pids_def by (rule id_in_filter_iff[OF assms that])
    have q: "event_id r \<in> Qids \<longleftrightarrow> ?Q r"
      unfolding Qids_def by (rule id_in_filter_iff[OF assms that])
    show ?thesis
      by (auto simp: p q swept_def)
  qed
  have rows: "set_statuses (filter ?Q (events d)) COMPLETED
                (set_statuses (filter ?P (events d)) ONGOING (events d))
              = map (swept now) (events d)"
    unfolding set_statuses_map Pids_def[symmetric] Qids_def[symmetric] map_map
    by (rule map_cong[OF refl]) (simp only: comp_def row)
  have q_eq: "filter ?Q (events d)
      = filter (\<lambda>e. (status e = SCHEDULED \<or> status e = ONGOING) \<and> end_time e \<le> now) (events d)"
    by (rule filter_cong) auto
  show ?thesis
    unfolding update_event_statuses_def Let_def rows
    by (simp add: q_eq)
qed

lemma event_id_swept [simp]: "event_id (swept now e) = event_id e"
  by (simp add: swept_def)

text \<open>
  C8. One sweep at time \<open>now\<close> changes exactly the stale events: an event that is
  scheduled with \<open>start_time \<le> now < end_time\<close> becomes ongoing, an event that is
  scheduled or ongoing with \<open>end_time \<le> now\<close> becomes completed, and every other event
  (a canceled one among them) and every other field stay as they are; the counts
  returned are the numbers of events of the two kinds.
\<close>

theorem sweep_transitions:
  assumes "distinct (map event_id (events d))"
  shows "update_event_statuses d now =
    (\<lparr>ongoing = length (filter (\<lambda>e. status e = SCHEDULED \<and> start_time e \<le> now \<and> now < end_time e)
                  (events d)),
      completed = length (filter (\<lambda>e. (status e = SCHEDULED \<or> status e = ONGOING) \<and> end_time e \<le> now)
                    (events d))\<rparr>,
     d\<lparr>events := map (\<lambda>e.
          if status e = SCHEDULED \<and> start_time e \<le> now \<and> now < end_time e
          then e\<lparr>status := ONGOING\<rparr>
          else if (status e = SCHEDULED \<or> status e = ONGOING) \<and> end_time e \<le> now
          then e\<lparr>status := COMPLETED\<rparr>
          else e) (events d)\<rparr>)"
  using update_event_statuses_eq[OF assms, of now]
  by (simp add: swept_def[abs_def])

theorem sweep_transitions_witness:
  "distinct (map event_id (events store3))
   \<and> update_event_statuses store3 15
       = (\<lparr>ongoing = 1, completed = 1\<rparr>,
          store3\<lparr>events := [ev1\<lparr>status := ONGOING\<rparr>, ev2, ev3\<lparr>status := COMPLETED\<rparr>, ev4]\<rparr>)"
proof -
  have h: "distinct (map event_id (events store3))"
    by (simp add: example_defs)
  from sweep_transitions[OF h, of 15] h show ?thesis
    by (simp add: example_defs)
qed

lemma swept_not_stale:
  "\<not> (status (swept now e) = SCHEDULED \<and> start_time (swept now e) \<le> now
       \<and> now < end_time (swept now e))"
  "\<not> ((status (swept now e) = SCHEDULED \<or> status (swept now e) = ONGOING)
       \<and> end_time (swept now e) \<le> now)"
  by (auto simp: swept_def)

lemma swept_fixed:
  assumes "\<not> (status e = SCHEDULED \<and> start_time e \<le> now \<and> now < end_time e)"
    and "\<not> ((status e = SCHEDULED \<or> status e = ONGOING) \<and> end_time e \<le> now)"
  shows "swept now e = e"
  using assms by (auto simp: swept_def)

lemma swept_idem: "swept now (swept now e) = swept now e"
  by (rule swept_fixed[OF swept_not_stale])

text \<open>
  C9. A second sweep at the same time finds nothing to do: both of its counts are zero
  and it leaves the store of the first sweep as it is.
\<close>

theorem sweep_idempotent:
  assumes "distinct (map event_id (events d))"
  shows "update_event_statuses (snd (update_event_statuses d now)) now
         = (\<lparr>ongoing = 0, completed = 0\<rparr>, snd (update_event_statuses d now))"
proof -
  let ?d1 = "d\<lparr>events := map (swept now) (events d)\<rparr>"
  have first: "snd (update_event_statuses d now) = ?d1"
    by (simp add: update_event_statuses_eq[OF assms])
  have dist: "distinct (map event_id (events ?d1))"
    using assms by (simp add: comp_def)
  show ?thesis
    unfolding first update_event_statuses_eq[OF dist]
    using swept_not_stale by (simp add: swept_idem filter_empty_conv)
qed

theorem sweep_idempotent_witness:
  "distinct (map event_id (events store3))
   \<and> fst (update_event_statuses (snd (update_event_statuses store3 15)) 15)
       = \<lparr>ongoing = 0, completed = 0\<rparr>"
proof -
  have h: "distinct (map event_id (events store3))"
    by (simp add: example_defs)
  from sweep_idempotent[OF h, of 15] h show ?thesis
    by simp
qed

section \<open>Updating an event\<close>

lemma assign_Some_iff: "assign g old = None \<longleftrightarrow> g = Given None"
  by (cases g) auto

lemma assign_case:
  "assign g old = Some v \<Longrightarrow> v = (case g of NotGiven \<Rightarrow> old | Given x \<Rightarrow> the x)"
  by (cases g) auto

lemma assign_nullable_case:
  "assign_nullable g old = (case g of NotGiven \<Rightarrow> old | Given x \<Rightarrow> x)"
  by (cases g) auto

lemma set_event_fields_None: "set_event_fields e u = None \<longleftrightarrow> \<not> no_null u"
  by (auto simp: set_event_fields_def no_null_def assign_Some_iff split: option.splits)

lemma set_event_fields_Some:
  assumes "set_event_fields e u = Some e'"
  shows "event_id e' = event_id e"
    and "name e' = (case upd_name u of NotGiven \<Rightarrow> name e | Given v \<Rightarrow> the v)"
    and "description e' = (case upd_description u of NotGiven \<Rightarrow> description e | Given v \<Rightarrow> v)"
    and "start_time e' = (case upd_start_time u of NotGiven \<Rightarrow> start_time e | Given v \<Rightarrow> the v)"
    and "end_time e' = (case upd_end_time u of NotGiven \<Rightarrow> end_time e | Given v \<Rightarrow> the v)"
    and "location e' = (case upd_location u of NotGiven \<Rightarrow> location e | Given v \<Rightarrow> the v)"
    and "max_attendees e' = (case upd_max_attendees u of NotGiven \<Rightarrow> max_attendees e | Given v \<Rightarrow> the v)"
    and "status e' = (case upd_status u of NotGiven \<Rightarrow> status e | Given v \<Rightarrow> the v)"
  using assms
  by (auto simp: set_event_fields_def assign_nullable_case split: option.splits dest!: assign_case)

lemma update_event_overbooks:
  "update_event store2 1 (only_max_attendees 1)
     = Inr (ev1\<lparr>max_attendees := 1\<rparr>,
            store2\<lparr>events := [ev1\<lparr>max_attendees := 1\<rparr>, ev2]\<rparr>)"
  by (simp add: update_event_def get_event_def set_event_fields_def replace_event_def
      only_max_attendees_def example_defs)

text \<open>
  C10, amended. For an event that exists, an update that sets no required column to null
  succeeds and returns the stored event with exactly the given fields replaced by the
  given values and every other field as it was; the other events and all attendees stay
  (an update that sets a required column to null is refused by the store and changes
  nothing). The attendee count is not consulted: \<^verbatim>\<open>max_attendees\<close> may be set to any
  value \<open>m\<close>, and some update leaves an event with more attendees than \<^verbatim>\<open>max_attendees\<close>.
\<close>

theorem update_event_applies_given_fields:
  assumes "get_event d eid = Inr e"
  shows "(no_null u \<longrightarrow>
          (\<exists>e'. update_event d eid u
                   = Inr (e', d\<lparr>events := map (\<lambda>x. if event_id x = eid then e' else x) (events d)\<rparr>)
             \<and> event_id e' = event_id e
             \<and> name e' = (case upd_name u of NotGiven \<Rightarrow> name e | Given v \<Rightarrow> the v)
             \<and> description e'
                 = (case upd_description u of NotGiven \<Rightarrow> description e | Given v \<Rightarrow> v)
             \<and> start_time e'
                 = (case upd_start_time u of NotGiven \<Rightarrow> start_time e | Given v \<Rightarrow> the v)
             \<and> end_time e'
                 = (case upd_end_time u of NotGiven \<Rightarrow> end_time e | Given v \<Rightarrow> the v)
             \<and> location e'
                 = (case upd_location u of NotGiven \<Rightarrow> location e | Given v \<Rightarrow> the v)
             \<and> max_attendees e'
                 = (case upd_max_attendees u of NotGiven \<Rightarrow> max_attendees e
                    | Given v \<Rightarrow> the v)
             \<and> status e' = (case upd_status u of NotGiven \<Rightarrow> status e | Given v \<Rightarrow> the v)))
       \<and> (\<not> no_null u \<longrightarrow> update_event d eid u = Inl IntegrityError)
       \<and> get_attendee_count (state_after d (update_event d eid u)) eid = get_attendee_count d eid
       \<and> (\<exists>e' d'. update_event d eid (only_max_attendees m) = Inr (e', d')
             \<and> max_attendees e' = m)
       \<and> (\<exists>d0 e0 d1. update_event d0 1 (only_max_attendees 1) = Inr (e0, d1)
             \<and> int (get_attendee_count d1 1) > max_attendees e0)"
proof -
  have id: "event_id e = eid" by (rule get_event_id[OF assms])
  have ok: "\<exists>e'. update_event d eid u
                   = Inr (e', d\<lparr>events := map (\<lambda>x. if event_id x = eid then e' else x) (events d)\<rparr>)
             \<and> set_event_fields e u = Some e'" if "no_null u"
  proof -
    from that obtain e' where e': "set_event_fields e u = Some e'"
      using set_event_fields_None[of e u] by (cases "set_event_fields e u") auto
    then have "event_id e' = eid" using set_event_fields_Some(1)[OF e'] id by simp
    with e' assms show ?thesis
      by (simp add: update_event_def replace_event_def)
  qed
  have bad: "update_event d eid u = Inl IntegrityError" if "\<not> no_null u"
    using that assms set_event_fields_None[of e u] by (simp add: update_event_def)
  have cnt: "get_attendee_count (state_after d (update_event d eid u)) eid
      = get_attendee_count d eid"
    using assms
    by (auto simp: update_event_def state_after_def get_attendee_count_def
        split: option.splits)
  have nn: "no_null (only_max_attendees m)"
    by (simp add: no_null_def only_max_attendees_def)
  have mx: "\<exists>e' d'. update_event d eid (only_max_attendees m) = Inr (e', d')
             \<and> max_attendees e' = m"
  proof -
    obtain e' where e': "set_event_fields e (only_max_attendees m) = Some e'"
      using nn set_event_fields_None[of e "only_max_attendees m"]
      by (cases "set_event_fields e (only_max_attendees m)") auto
    have "max_attendees e' = m"
      using set_event_fields_Some(7)[OF e'] by (simp add: only_max_attendees_def)
    with e' assms show ?thesis by (simp add: update_event_def)
  qed
  have over: "\<exists>d0 e0 d1. update_event d0 1 (only_max_attendees 1) = Inr (e0, d1)
             \<and> int (get_attendee_count d1 1) > max_attendees e0"
    apply (rule exI[of _ store2])
    apply (simp add: update_event_overbooks)
    apply (simp add: get_attendee_count_def example_defs)
    done
  have fields: "\<exists>e'. update_event d eid u
                   = Inr (e', d\<lparr>events := map (\<lambda>x. if event_id x = eid then e' else x) (events d)\<rparr>)
             \<and> event_id e' = event_id e
             \<and> name e' = (case upd_name u of NotGiven \<Rightarrow> name e | Given v \<Rightarrow> the v)
             \<and> description e'
                 = (case upd_description u of NotGiven \<Rightarrow> description e | Given v \<Rightarrow> v)
             \<and> start_time e'
                 = (case upd_start_time u of NotGiven \<Rightarrow> start_time e | Given v \<Rightarrow> the v)
             \<and> end_time e'
                 = (case upd_end_time u of NotGiven \<Rightarrow> end_time e | Given v \<Rightarrow> the v)
             \<and> location e'
                 = (case upd_location u of NotGiven \<Rightarrow> location e | Given v \<Rightarrow> the v)
             \<and> max_attendees e'
                 = (case upd_max_attendees u of NotGiven \<Rightarrow> max_attendees e
                    | Given v \<Rightarrow> the v)
             \<and> status e' = (case upd_status u of NotGiven \<Rightarrow> status e | Given v \<Rightarrow> the v)"
    if nn': "no_null u"
  proof -
    from ok[OF nn'] obtain e' where e': "update_event d eid u
        = Inr (e', d\<lparr>events := map (\<lambda>x. if event_id x = eid then e' else x) (events d)\<rparr>)"
      "set_event_fields e u = Some e'" by blast
    show ?thesis
      apply (rule exI[of _ e'])
      using e'(1) set_event_fields_Some[OF e'(2)] by simp
  qed
  show ?thesis
    using fields bad cnt mx over by blast
qed

theorem update_event_applies_given_fields_witness:
  "get_event store2 1 = Inr ev1 \<and> no_null (only_max_attendees 1)
   \<and> update_event store2 1 (only_max_attendees 1)
       = Inr (ev1\<lparr>max_attendees := 1\<rparr>, store2\<lparr>events := [ev1\<lparr>max_attendees := 1\<rparr>, ev2]\<rparr>)
   \<and> get_attendee_count (state_after store2 (update_event store2 1 (only_max_attendees 1))) 1 = 2"
proof -
  have h: "get_event store2 1 = Inr ev1"
    by (simp add: get_event_def example_defs)
  have n: "no_null (only_max_attendees 1)"
    by (simp add: no_null_def only_max_attendees_def)
  have c: "get_attendee_count store2 1 = 2"
    by (simp add: get_attendee_count_def example_defs)
  from update_event_applies_given_fields[OF h, of "only_max_attendees 1" 1]
  have "get_attendee_count (state_after store2 (update_event store2 1 (only_max_attendees 1))) 1
          = get_attendee_count store2 1"
    by blast
  with h n c show ?thesis
    by (simp add: update_event_overbooks)
qed

text \<open>
  C10 as stated fails: a request that is explicitly present for \<^verbatim>\<open>name\<close> with the value
  \<^verbatim>\<open>null\<close> and for \<^verbatim>\<open>location\<close> with a new value is refused when it is committed
  (\<^verbatim>\<open>name\<close> is \<^verbatim>\<open>nullable=False\<close>), so the \<^verbatim>\<open>location\<close> that the request gives is
  not applied: the stored event keeps its old one.
\<close>

theorem update_event_null_counterexample:
  "upd_location null_name_new_location = Given (Some ''Annex'')
   \<and> update_event store2 1 null_name_new_location = Inl IntegrityError
   \<and> get_event (state_after store2 (update_event store2 1 null_name_new_location)) 1 = Inr ev1
   \<and> location ev1 = ''Hall''"
  by (simp add: update_event_def get_event_def set_event_fields_def state_after_def
      null_name_new_location_def example_defs)

section \<open>Bulk check-in\<close>

lemma check_in_loop_eq:
  "check_in_loop as al nw rows =
     (al @ map attendee_id (filter check_in_status as),
      nw @ map attendee_id (filter (\<lambda>a. \<not> check_in_status a) as),
      map (\<lambda>r. if attendee_id r \<in> attendee_id ` set (filter (\<lambda>a. \<not> check_in_status a) as)
                then r\<lparr>check_in_status := True\<rparr> else r) rows)"
proof (induction as arbitrary: al nw rows)
  case Nil
  then show ?case by simp
next
  case (Cons a as)
  show ?case
    by (auto simp: Cons.IH set_checked_in_def)
qed

lemma bulk_check_in_eq:
  assumes "get_event d eid = Inr ev"
  shows "bulk_check_in d eid ids =
    (let F = filter (\<lambda>a. att_event_id a = eid \<and> attendee_id a \<in> set ids) (attendees d);
         nw = map attendee_id (filter (\<lambda>a. \<not> check_in_status a) F)
     in Inr (\<lparr>total_count = length ids, found_count = length F,
              missing = filter (\<lambda>i. i \<notin> set (map attendee_id F)) ids,
              already_checked_in = map attendee_id (filter check_in_status F),
              newly_checked_in = nw\<rparr>,
             d\<lparr>attendees := map (\<lambda>r. if attendee_id r \<in> set nw
                                     then r\<lparr>check_in_status := True\<rparr> else r) (attendees d)\<rparr>))"
  using assms by (simp add: bulk_check_in_def check_in_loop_eq Let_def)

lemma same_id_same_row:
  assumes "distinct (map attendee_id rows)" "a \<in> set rows" "b \<in> set rows"
    "attendee_id a = attendee_id b"
  shows "a = b"
proof -
  from assms(1) have "inj_on attendee_id (set rows)" by (simp add: distinct_map)
  with assms(2-4) show ?thesis by (auto dest: inj_onD)
qed





section \<open>Check-in is kept\<close>

lemma kept_subset:
  assumes "distinct (map attendee_id rows)" "set rows' \<subseteq> set rows"
  shows "kept rows rows'"
  unfolding kept_def
proof (intro ballI impI)
  fix a a' assume "a \<in> set rows" "check_in_status a" "a' \<in> set rows'"
    "attendee_id a' = attendee_id a"
  with assms have "a' = a" using same_id_same_row[OF assms(1), of a' a] by auto
  with \<open>check_in_status a\<close> show "check_in_status a'" by simp
qed

lemma kept_same: "distinct (map attendee_id rows) \<Longrightarrow> kept rows rows"
  by (rule kept_subset) simp_all

lemma kept_append:
  assumes "distinct (map attendee_id rows)"
    and "\<forall>r\<in>set new. attendee_id r \<notin> attendee_id ` set rows"
  shows "kept rows (rows @ new)"
  unfolding kept_def
proof (intro ballI impI)
  fix a a' assume a: "a \<in> set rows" "check_in_status a" and a': "a' \<in> set (rows @ new)"
    "attendee_id a' = attendee_id a"
  from a' a(1) assms(2) have "a' \<in> set rows" by force
  with a a' have "a' = a" using same_id_same_row[OF assms(1), of a' a] by auto
  with a show "check_in_status a'" by simp
qed

lemma kept_map:
  assumes "distinct (map attendee_id rows)"
    and "\<forall>r\<in>set rows. attendee_id (f r) = attendee_id r
           \<and> (check_in_status r \<longrightarrow> check_in_status (f r))"
  shows "kept rows (map f rows)"
  unfolding kept_def
proof (intro ballI impI)
  fix a a' assume a: "a \<in> set rows" "check_in_status a" and a': "a' \<in> set (map f rows)"
    "attendee_id a' = attendee_id a"
  from a'(1) obtain r where r: "r \<in> set rows" "a' = f r" by auto
  with assms(2) a'(2) have "attendee_id r = attendee_id a" by auto
  with r a have "r = a" using same_id_same_row[OF assms(1), of r a] by auto
  with r a assms(2) show "check_in_status a'" by auto
qed

lemma fold_max_ge: "(a::int) \<le> fold max xs a \<and> (\<forall>x\<in>set xs. x \<le> fold max xs a)"
proof (induction xs arbitrary: a)
  case Nil
  then show ?case by simp
next
  case (Cons x xs)
  from Cons[of "max x a"] show ?case by auto
qed

lemma next_id_fresh: "x \<in> set ids \<Longrightarrow> x < next_id ids"
  using fold_max_ge[of 0 ids] by (auto simp: next_id_def)

lemma new_attendees_ids: "r \<in> set (new_attendees eid i cs) \<Longrightarrow> i \<le> attendee_id r"
  by (induction cs arbitrary: i) force+

lemma new_attendees_fresh:
  "\<forall>r\<in>set (new_attendees eid (next_id (map attendee_id rows)) cs).
     attendee_id r \<notin> attendee_id ` set rows"
proof
  fix r assume "r \<in> set (new_attendees eid (next_id (map attendee_id rows)) cs)"
  then have "next_id (map attendee_id rows) \<le> attendee_id r" by (rule new_attendees_ids)
  moreover have "x < next_id (map attendee_id rows)" if "x \<in> attendee_id ` set rows" for x
    using that next_id_fresh[of x "map attendee_id rows"] by simp
  ultimately show "attendee_id r \<notin> attendee_id ` set rows" by force
qed

lemma kept_new_attendees:
  "distinct (map attendee_id rows) \<Longrightarrow>
   kept rows (rows @ new_attendees eid (next_id (map attendee_id rows)) cs)"
  by (rule kept_append[OF _ new_attendees_fresh])

lemma kept_create_attendee:
  assumes "distinct (map attendee_id (attendees d))"
  shows "kept (attendees d) (attendees (state_after d (create_attendee d eid c)))"
proof (cases "create_attendee d eid c")
  case (Inl e)
  then show ?thesis using assms by (simp add: state_after_def kept_same)
next
  case (Inr p)
  then have "attendees (state_after d (create_attendee d eid c))
      = attendees d @ new_attendees eid (next_id (map attendee_id (attendees d))) [c]"
    by (auto simp: create_attendee_def state_after_def commit_attendees_def Let_def
        split: sum.splits option.splits if_splits)
  then show ?thesis using kept_new_attendees[OF assms, of eid "[c]"] by simp
qed

lemma kept_bulk_create:
  assumes "distinct (map attendee_id (attendees d))"
  shows "kept (attendees d) (attendees (state_after d (bulk_create_attendees it d eid cs)))"
proof (cases "bulk_create_attendees it d eid cs")
  case (Inl e)
  then show ?thesis using assms by (simp add: state_after_def kept_same)
next
  case (Inr p)
  then have "attendees (state_after d (bulk_create_attendees it d eid cs))
      = attendees d @ new_attendees eid (next_id (map attendee_id (attendees d))) cs"
    by (auto simp: bulk_create_attendees_def state_after_def commit_attendees_def Let_def
        split: sum.splits if_splits)
  then show ?thesis using kept_new_attendees[OF assms] by simp
qed

lemma kept_csv:
  assumes "distinct (map attendee_id (attendees d))"
  shows "kept (attendees d) (attendees (state_after d (process_csv_upload it d eid f)))"
proof (cases "process_csv_upload it d eid f")
  case (Inl e)
  then show ?thesis using assms by (simp add: state_after_def kept_same)
next
  case (Inr p)
  then obtain cs where "attendees (state_after d (process_csv_upload it d eid f))
      = attendees d @ new_attendees eid (next_id (map attendee_id (attendees d))) cs"
    by (auto simp: process_csv_upload_def state_after_def commit_attendees_def Let_def
        split: sum.splits if_splits csv_file.splits option.splits)
  then show ?thesis using kept_new_attendees[OF assms] by simp
qed

lemma kept_check_in:
  assumes "distinct (map attendee_id (attendees d))"
  shows "kept (attendees d) (attendees (state_after d (check_in_attendee d aid)))"
proof (cases "check_in_attendee d aid")
  case (Inl e)
  then show ?thesis using assms by (simp add: state_after_def kept_same)
next
  case (Inr p)
  then obtain i where "attendees (state_after d (check_in_attendee d aid))
      = set_checked_in i (attendees d)"
    by (auto simp: check_in_attendee_def state_after_def split: sum.splits if_splits)
  then show ?thesis
    unfolding set_checked_in_def using kept_map[OF assms] by simp
qed

lemma kept_bulk_check_in:
  assumes "distinct (map attendee_id (attendees d))"
  shows "kept (attendees d) (attendees (state_after d (bulk_check_in d eid ids)))"
proof (cases "get_event d eid")
  case (Inl e)
  then show ?thesis using assms by (simp add: bulk_check_in_def state_after_def kept_same)
next
  case (Inr ev)
  show ?thesis
    unfolding bulk_check_in_eq[OF Inr] Let_def state_after_def
    using kept_map[OF assms] by simp
qed

lemma kept_delete_attendee:
  assumes "distinct (map attendee_id (attendees d))"
  shows "kept (attendees d) (attendees (state_after d (delete_attendee d aid)))"
  by (rule kept_subset[OF assms])
     (auto simp: delete_attendee_def state_after_def split: sum.splits)

lemma kept_delete_event:
  assumes "distinct (map attendee_id (attendees d))"
  shows "kept (attendees d) (attendees (state_after d (delete_event d eid)))"
  by (rule kept_subset[OF assms])
     (auto simp: delete_event_def state_after_def split: sum.splits)

lemma kept_create_event:
  assumes "distinct (map attendee_id (attendees d))"
  shows "kept (attendees d) (attendees (state_after d (create_event d c)))"
  using assms by (simp add: create_event_def state_after_def Let_def kept_same)

lemma kept_update_event:
  assumes "distinct (map attendee_id (attendees d))"
  shows "kept (attendees d) (attendees (state_after d (update_event d eid u)))"
  by (rule kept_subset[OF assms])
     (auto simp: update_event_def state_after_def split: sum.splits option.splits)

lemma kept_sweep:
  assumes "distinct (map attendee_id (attendees d))"
  shows "kept (attendees d) (attendees (snd (update_event_statuses d now)))"
  using assms by (simp add: update_event_statuses_def Let_def kept_same)

lemma set_attendee_fields_status:
  assumes "set_attendee_fields a u = Some a'" "upd_check_in_status u \<noteq> Given (Some False)"
  shows "attendee_id a' = attendee_id a" "check_in_status a \<Longrightarrow> check_in_status a'"
proof -
  from assms(1) obtain c where c: "assign (upd_check_in_status u) (check_in_status a) = Some c"
    and ids: "attendee_id a' = attendee_id a" and st: "check_in_status a' = c"
    by (auto simp: set_attendee_fields_def split: option.splits)
  show "attendee_id a' = attendee_id a" by (rule ids)
  show "check_in_status a'" if "check_in_status a"
    using c st that assms(2) by (cases "upd_check_in_status u") auto
qed

lemma kept_update_attendee:
  assumes pk: "distinct (map attendee_id (attendees d))"
    and ok: "upd_check_in_status u \<noteq> Given (Some False)"
  shows "kept (attendees d) (attendees (state_after d (update_attendee d aid u)))"
proof (cases "update_attendee d aid u")
  case (Inl e)
  then show ?thesis using pk by (simp add: state_after_def kept_same)
next
  case (Inr p)
  then obtain a a' where a: "get_attendee d aid = Inr a"
    and f: "set_attendee_fields a u = Some a'"
    and st: "attendees (state_after d (update_attendee d aid u))
               = replace_attendee a' (attendees d)"
    by (auto simp: update_attendee_def state_after_def Let_def
        split: sum.splits option.splits if_splits)
  from a have ain: "a \<in> set (attendees d)"
    by (auto simp: get_attendee_def find_Some_iff split: option.splits)
  have "attendee_id (if attendee_id r = attendee_id a' then a' else r) = attendee_id r
      \<and> (check_in_status r \<longrightarrow> check_in_status (if attendee_id r = attendee_id a' then a' else r))"
    if r: "r \<in> set (attendees d)" for r
  proof (cases "attendee_id r = attendee_id a'")
    case True
    then have "r = a"
      using same_id_same_row[OF pk r ain] set_attendee_fields_status(1)[OF f ok] by simp
    then show ?thesis
      using True set_attendee_fields_status(2)[OF f ok] by simp
  next
    case False
    then show ?thesis by simp
  qed
  then have rows: "\<forall>r\<in>set (attendees d).
      attendee_id ((\<lambda>r. if attendee_id r = attendee_id a' then a' else r) r) = attendee_id r
      \<and> (check_in_status r \<longrightarrow>
           check_in_status ((\<lambda>r. if attendee_id r = attendee_id a' then a' else r) r))"
    by simp
  show ?thesis
    unfolding st replace_attendee_def by (rule kept_map[OF pk rows])
qed

text \<open>
  C7, amended. In a store whose attendee ids are a primary key, no request other than
  an attendee update that sets \<^verbatim>\<open>check_in_status\<close> to false takes a check-in back:
  an attendee that is checked in before the request is checked in after it, if it is
  still stored.
\<close>

theorem check_in_one_way:
  assumes pk: "distinct (map attendee_id (attendees d))"
    and ok: "\<not> unchecks r"
    and a: "a \<in> set (attendees d)" "check_in_status a"
    and a': "a' \<in> set (attendees (handle it d r))" "attendee_id a' = attendee_id a"
  shows "check_in_status a'"
proof -
  have "kept (attendees d) (attendees (handle it d r))"
  proof (cases r)
    case (UpdateAttendee aid u)
    with ok have "upd_check_in_status u \<noteq> Given (Some False)" by simp
    then show ?thesis
      using UpdateAttendee kept_update_attendee[OF pk] by simp
  qed (simp_all add: kept_create_event kept_update_event kept_delete_event kept_sweep
      kept_create_attendee kept_delete_attendee kept_check_in kept_bulk_check_in
      kept_bulk_create kept_csv pk)
  with a a' show ?thesis unfolding kept_def by blast
qed

theorem check_in_one_way_witness:
  "distinct (map attendee_id (attendees store2))
   \<and> \<not> unchecks (UpdateAttendee 2 rename_only)
   \<and> att2 \<in> set (attendees store2) \<and> check_in_status att2
   \<and> handle remdups store2 (UpdateAttendee 2 rename_only)
       = store2\<lparr>attendees := [att1, att2\<lparr>last_name := ''Roe''\<rparr>]\<rparr>
   \<and> check_in_status (att2\<lparr>last_name := ''Roe''\<rparr>)"
proof -
  have pk: "distinct (map attendee_id (attendees store2))"
    by (simp add: example_defs)
  have ok: "\<not> unchecks (UpdateAttendee 2 rename_only)"
    by (simp add: rename_only_def)
  have a: "att2 \<in> set (attendees store2)" "check_in_status att2"
    by (simp_all add: example_defs)
  have run: "handle remdups store2 (UpdateAttendee 2 rename_only)
       = store2\<lparr>attendees := [att1, att2\<lparr>last_name := ''Roe''\<rparr>]\<rparr>"
    by (simp add: update_attendee_def get_attendee_def set_attendee_fields_def
        replace_attendee_def state_after_def rename_only_def example_defs)
  have a': "att2\<lparr>last_name := ''Roe''\<rparr> \<in> set (attendees (handle remdups store2
      (UpdateAttendee 2 rename_only)))"
    "attendee_id (att2\<lparr>last_name := ''Roe''\<rparr>) = attendee_id att2"
    unfolding run by simp_all
  from check_in_one_way[OF pk ok a a'] pk ok a run show ?thesis by simp
qed

text \<open>
  C7 as stated fails: the update schema has the field \<^verbatim>\<open>check_in_status\<close>, and
  \<^verbatim>\<open>update_attendee\<close> writes it like any other field, so an update with
  \<^verbatim>\<open>check_in_status\<close> false changes a checked-in attendee back.
\<close>

theorem check_in_one_way_counterexample:
  "get_attendee store2 2 = Inr att2 \<and> check_in_status att2
   \<and> update_attendee store2 2 uncheck_only
       = Inr (att2\<lparr>check_in_status := False\<rparr>,
              store2\<lparr>attendees := [att1, att2\<lparr>check_in_status := False\<rparr>]\<rparr>)
   \<and> get_attendee (handle remdups store2 (UpdateAttendee 2 uncheck_only)) 2
       = Inr (att2\<lparr>check_in_status := False\<rparr>)"
  by (simp add: update_attendee_def get_attendee_def set_attendee_fields_def
      replace_attendee_def state_after_def uncheck_only_def example_defs)

end
